theory Spec2Isabelle
  imports Main
begin

section \<open>The instrumenter of \<^verbatim>\<open>src/instrument-context-module.js\<close>\<close>

text \<open>
  The module exports one function, \<^verbatim>\<open>(handleContext, handleModule) => {...}\<close>. A call
  creates five closure variables and returns two functions, \<^verbatim>\<open>context\<close> and
  \<^verbatim>\<open>module\<close>; each clones the regular expression it is given and replaces the clone's
  \<^verbatim>\<open>test\<close> property by a function that calls the previous \<^verbatim>\<open>test\<close>, looks at
  the result and calls \<^verbatim>\<open>report\<close>.

  The embedding keeps the pieces apart as the code has them:
  \<^item> regular expressions are objects in a store, addressed by reference, because the code
    clones one object and assigns to a property of the clone;
  \<^item> the five \<^verbatim>\<open>let\<close> variables of the closure are a record that every function
    takes and returns;
  \<^item> the two callbacks are optional functions on a world \<open>'w\<close> that only they can change;
  \<^item> a \<^verbatim>\<open>throw\<close> is an \<open>Inl\<close> result, returned together with the store and the
    variables as they are at that point.
\<close>

subsection \<open>Regular expression objects and the store\<close>

text \<open>
  The \<^verbatim>\<open>test\<close> property of a regular expression object is one of three functions: the
  engine's own \<^verbatim>\<open>RegExp.prototype.test\<close>, the function assigned at line 62, or the
  function assigned at line 86.
\<close>

datatype test_fn = NativeTest | ContextWrapper | ModuleWrapper

text \<open>
  \<open>slots\<close> is everything the engine keeps in the object (source, flags, \<^verbatim>\<open>lastIndex\<close>);
  its type \<open>'r\<close> and the engine are parameters of the development.
\<close>

record 'r regexp =
  slots :: 'r
  test :: test_fn

type_synonym addr = nat

type_synonym 'r store = "'r regexp list"

text \<open>
  The engine: \<open>rt x s\<close> is the result of the native \<^verbatim>\<open>test\<close> on an object with slots
  \<open>x\<close> and argument \<open>s\<close>, and the slots afterwards.
\<close>

type_synonym 'r engine = "'r \<Rightarrow> string \<Rightarrow> bool \<times> 'r"

datatype error = ContextOnce | ModuleOnce | TypeError

definition lookup :: "'r store \<Rightarrow> addr \<Rightarrow> 'r regexp option" where
  "lookup h a = (if a < length h then Some (h ! a) else None)"

text \<open>
  \<^verbatim>\<open>RegExp.prototype.test.apply(o, [s])\<close>: a \<^verbatim>\<open>TypeError\<close> when \<open>o\<close> is not a regular
  expression object (here: \<^verbatim>\<open>undefined\<close> or a reference to nothing), otherwise the
  engine's result, with the object's slots updated in place.
\<close>

definition native_test ::
  "'r engine \<Rightarrow> 'r store \<Rightarrow> addr option \<Rightarrow> string \<Rightarrow> (error + bool) \<times> 'r store" where
  "native_test rt h this s =
     (case this of
        None \<Rightarrow> (Inl TypeError, h)
      | Some a \<Rightarrow>
          (case lookup h a of
             None \<Rightarrow> (Inl TypeError, h)
           | Some obj \<Rightarrow>
               (let (result, x) = rt (slots obj) s
                in (Inr result, h[a := obj\<lparr>slots := x\<rparr>]))))"

text \<open>
  Modelled from the spec: \<^verbatim>\<open>regexpClone\<close>, imported at line 1 from the package
  \<^verbatim>\<open>regexp-clone\<close>, whose code is not part of the sources. The specification calls its
  result a structural, independent copy of the pattern: a new regular expression object
  with the slots of the given one and the engine's own \<^verbatim>\<open>test\<close>. The new object is
  allocated at the end of the store.
\<close>

definition regexpClone :: "'r store \<Rightarrow> addr \<Rightarrow> (error + addr) \<times> 'r store" where
  "regexpClone h regExp =
     (case lookup h regExp of
        None \<Rightarrow> (Inl TypeError, h)
      | Some obj \<Rightarrow> (Inr (length h), h @ [\<lparr>slots = slots obj, test = NativeTest\<rparr>]))"

subsection \<open>The closure variables and the callbacks\<close>

text \<open>
  Lines 32 to 36. \<^verbatim>\<open>contextRegex\<close> and \<^verbatim>\<open>moduleRegex\<close> are \<^verbatim>\<open>undefined\<close> or a
  reference; \<^verbatim>\<open>lastContext\<close> and \<^verbatim>\<open>lastModule\<close> are \<^verbatim>\<open>null\<close> or a string.
  \<open>instrument\<close> is the variables of a new instrumenter, as the exported function leaves
  them when it returns.
\<close>

record vars =
  contextRegex :: "addr option"
  moduleRegex :: "addr option"
  lastContext :: "string option"
  lastModule :: "string option"
  reportedContext :: bool

definition instrument :: vars where
  "instrument =
     \<lparr>contextRegex = None, moduleRegex = None,
      lastContext = None, lastModule = None, reportedContext = False\<rparr>"

text \<open>
  \<^verbatim>\<open>handleContext(lastContext, contextRegex, moduleRegex)\<close> and
  \<^verbatim>\<open>handleModule(lastModule, lastContext, contextRegex, moduleRegex)\<close>. A callback is
  taken to return normally and not to call back into the instrumenter or write to the
  regular expressions; what it does is a change of the world \<open>'w\<close>.
\<close>

type_synonym 'w on_context = "string \<Rightarrow> addr option \<Rightarrow> addr option \<Rightarrow> 'w \<Rightarrow> 'w"

type_synonym 'w on_module = "string \<Rightarrow> string \<Rightarrow> addr option \<Rightarrow> addr option \<Rightarrow> 'w \<Rightarrow> 'w"

text \<open>
  Lines 38 to 48. A guard \<^verbatim>\<open>f && lastContext && lastModule\<close> holds when the callback was
  given and both strings are neither \<^verbatim>\<open>null\<close> nor empty (the empty string is falsy).
\<close>

definition report ::
  "'w on_context option \<Rightarrow> 'w on_module option \<Rightarrow> vars \<Rightarrow> 'w \<Rightarrow> vars \<times> 'w" where
  "report handleContext handleModule st w =
     (let (st1, w1) =
        (case (handleContext, lastContext st, lastModule st) of
           (Some f, Some c, Some m) \<Rightarrow>
             if c \<noteq> [] \<and> m \<noteq> [] \<and> \<not> reportedContext st
             then (st\<lparr>reportedContext := True\<rparr>, f c (contextRegex st) (moduleRegex st) w)
             else (st, w)
         | _ \<Rightarrow> (st, w))
      in (case (handleModule, lastContext st1, lastModule st1) of
            (Some g, Some c, Some m) \<Rightarrow>
              if c \<noteq> [] \<and> m \<noteq> []
              then (st1\<lparr>lastModule := None\<rparr>,
                    g m c (contextRegex st1) (moduleRegex st1) w1)
              else (st1, w1)
          | _ \<Rightarrow> (st1, w1)))"

subsection \<open>The two wrapping functions\<close>

text \<open>
  Lines 51 to 74, the function \<^verbatim>\<open>context\<close> (a keyword of Isabelle, hence the name the
  specification uses). The captured \<^verbatim>\<open>test\<close> of line 60 is the clone's own, which is
  the engine's, since the clone is a new object.
\<close>

definition wrapContext :: "'r store \<Rightarrow> vars \<Rightarrow> addr \<Rightarrow> (error + addr) \<times> 'r store \<times> vars" where
  "wrapContext h st regExp =
     (if contextRegex st \<noteq> None then (Inl ContextOnce, h, st)
      else
        (case regexpClone h regExp of
           (Inl e, h1) \<Rightarrow> (Inl e, h1, st)
         | (Inr clone, h1) \<Rightarrow>
             (case lookup h1 clone of
                None \<Rightarrow> (Inl TypeError, h1, st\<lparr>contextRegex := Some clone\<rparr>)
              | Some obj \<Rightarrow>
                  (Inr clone, h1[clone := obj\<lparr>test := ContextWrapper\<rparr>],
                   st\<lparr>contextRegex := Some clone\<rparr>))))"

text \<open>Lines 75 to 98, the function \<^verbatim>\<open>module\<close>.\<close>

definition wrapModule :: "'r store \<Rightarrow> vars \<Rightarrow> addr \<Rightarrow> (error + addr) \<times> 'r store \<times> vars" where
  "wrapModule h st regExp =
     (if moduleRegex st \<noteq> None then (Inl ModuleOnce, h, st)
      else
        (case regexpClone h regExp of
           (Inl e, h1) \<Rightarrow> (Inl e, h1, st)
         | (Inr clone, h1) \<Rightarrow>
             (case lookup h1 clone of
                None \<Rightarrow> (Inl TypeError, h1, st\<lparr>moduleRegex := Some clone\<rparr>)
              | Some obj \<Rightarrow>
                  (Inr clone, h1[clone := obj\<lparr>test := ModuleWrapper\<rparr>],
                   st\<lparr>moduleRegex := Some clone\<rparr>))))"

subsection \<open>The two installed test functions\<close>

type_synonym ('r, 'w) sys = "'r store \<times> vars \<times> 'w"

text \<open>
  Lines 62 to 71. The native test is applied to \<^verbatim>\<open>contextRegex\<close>, the closure variable,
  whatever object the function is called on. \<^verbatim>\<open>arguments[0] !== lastContext\<close> compares a
  string with \<^verbatim>\<open>null\<close> or a string.
\<close>

definition contextRegex_test ::
  "'w on_context option \<Rightarrow> 'w on_module option \<Rightarrow> 'r engine \<Rightarrow> string \<Rightarrow>
   ('r, 'w) sys \<Rightarrow> (error + bool) \<times> ('r, 'w) sys" where
  "contextRegex_test handleContext handleModule rt s sys =
     (case sys of (h, st, w) \<Rightarrow>
        (case native_test rt h (contextRegex st) s of
           (Inl e, h1) \<Rightarrow> (Inl e, h1, st, w)
         | (Inr result, h1) \<Rightarrow>
             if result \<and> Some s \<noteq> lastContext st
             then (let (st1, w1) = report handleContext handleModule (st\<lparr>lastContext := Some s\<rparr>) w
                   in (Inr result, h1, st1, w1))
             else (Inr result, h1, st, w)))"

text \<open>Lines 86 to 95.\<close>

definition moduleRegex_test ::
  "'w on_context option \<Rightarrow> 'w on_module option \<Rightarrow> 'r engine \<Rightarrow> string \<Rightarrow>
   ('r, 'w) sys \<Rightarrow> (error + bool) \<times> ('r, 'w) sys" where
  "moduleRegex_test handleContext handleModule rt s sys =
     (case sys of (h, st, w) \<Rightarrow>
        (case native_test rt h (moduleRegex st) s of
           (Inl e, h1) \<Rightarrow> (Inl e, h1, st, w)
         | (Inr result, h1) \<Rightarrow>
             if result \<and> Some s \<noteq> lastModule st
             then (let (st1, w1) = report handleContext handleModule (st\<lparr>lastModule := Some s\<rparr>) w
                   in (Inr result, h1, st1, w1))
             else (Inr result, h1, st, w)))"

subsection \<open>What a caller can do\<close>

text \<open>
  A caller holds references to regular expression objects and the two functions of the
  instrumenter. It can call \<^verbatim>\<open>context(re)\<close>, \<^verbatim>\<open>module(re)\<close> and \<^verbatim>\<open>re.test(s)\<close>;
  the last runs whichever function the object's \<^verbatim>\<open>test\<close> property holds. An exception
  reaches the caller, who may go on.
\<close>

datatype op = Context addr | Module addr | Test addr string

text \<open>
  What the caller gets back. \<open>Tested k b\<close> also names the function that ran, so that a
  statement about a run can speak of the tests of the context pattern or of the module
  pattern.
\<close>

datatype res = Wrapped addr | Tested test_fn bool | Thrown error

definition call_test ::
  "'w on_context option \<Rightarrow> 'w on_module option \<Rightarrow> 'r engine \<Rightarrow> test_fn \<Rightarrow> addr \<Rightarrow> string \<Rightarrow>
   ('r, 'w) sys \<Rightarrow> (error + bool) \<times> ('r, 'w) sys" where
  "call_test handleContext handleModule rt k a s sys =
     (case k of
        NativeTest \<Rightarrow>
          (case sys of (h, st, w) \<Rightarrow>
             (case native_test rt h (Some a) s of (r, h1) \<Rightarrow> (r, h1, st, w)))
      | ContextWrapper \<Rightarrow> contextRegex_test handleContext handleModule rt s sys
      | ModuleWrapper \<Rightarrow> moduleRegex_test handleContext handleModule rt s sys)"

definition exec ::
  "'w on_context option \<Rightarrow> 'w on_module option \<Rightarrow> 'r engine \<Rightarrow> op \<Rightarrow>
   ('r, 'w) sys \<Rightarrow> res \<times> ('r, 'w) sys" where
  "exec handleContext handleModule rt c sys =
     (case sys of (h, st, w) \<Rightarrow>
        (case c of
           Context regExp \<Rightarrow>
             (case wrapContext h st regExp of
                (Inl e, h1, st1) \<Rightarrow> (Thrown e, h1, st1, w)
              | (Inr a, h1, st1) \<Rightarrow> (Wrapped a, h1, st1, w))
         | Module regExp \<Rightarrow>
             (case wrapModule h st regExp of
                (Inl e, h1, st1) \<Rightarrow> (Thrown e, h1, st1, w)
              | (Inr a, h1, st1) \<Rightarrow> (Wrapped a, h1, st1, w))
         | Test a s \<Rightarrow>
             (case lookup h a of
                None \<Rightarrow> (Thrown TypeError, h, st, w)
              | Some obj \<Rightarrow>
                  (case call_test handleContext handleModule rt (test obj) a s sys of
                     (Inl e, sys1) \<Rightarrow> (Thrown e, sys1)
                   | (Inr b, sys1) \<Rightarrow> (Tested (test obj) b, sys1)))))"

fun run ::
  "'w on_context option \<Rightarrow> 'w on_module option \<Rightarrow> 'r engine \<Rightarrow> op list \<Rightarrow>
   ('r, 'w) sys \<Rightarrow> res list \<times> ('r, 'w) sys" where
  "run handleContext handleModule rt [] sys = ([], sys)"
| "run handleContext handleModule rt (c # cs) sys =
     (case exec handleContext handleModule rt c sys of
        (r, sys1) \<Rightarrow>
          (case run handleContext handleModule rt cs sys1 of
             (rs, sys2) \<Rightarrow> (r # rs, sys2)))"

subsection \<open>Callbacks that keep a log, and a small engine\<close>

text \<open>
  To count and order the calls of the callbacks, the world is a log and each callback
  appends what it was called with.
\<close>

datatype notice =
  ContextNotice string "addr option" "addr option"
| ModuleNotice string string "addr option" "addr option"

definition noteContext :: "notice list on_context" where
  "noteContext c cre mre log = log @ [ContextNotice c cre mre]"

definition noteModule :: "notice list on_module" where
  "noteModule m c cre mre log = log @ [ModuleNotice m c cre mre]"

text \<open>
  For the worked examples: a pattern without flags that accepts exactly the strings of a
  list, as \<^verbatim>\<open>/^(a|b|c)$/\<close> does. Its test leaves the object as it is.
\<close>

definition literals :: "string list engine" where
  "literals alts s = (s \<in> set alts, alts)"

text \<open>
  A store with two such patterns, at references 0 and 1. After \<open>Context 0\<close> and
  \<open>Module 1\<close> the wrapped clones are at 2 and 3.
\<close>

definition patterns :: "string list \<Rightarrow> string list \<Rightarrow> string list store" where
  "patterns cs ms = [\<lparr>slots = cs, test = NativeTest\<rparr>, \<lparr>slots = ms, test = NativeTest\<rparr>]"

text \<open>
  The callbacks of the end-to-end scenario: \<^verbatim>\<open>c => log.push(['ctx', c])\<close> and
  \<^verbatim>\<open>m => log.push(['mod', m])\<close>.
\<close>

definition logContext :: "(string \<times> string) list on_context" where
  "logContext c cre mre log = log @ [(''ctx'', c)]"

definition logModule :: "(string \<times> string) list on_module" where
  "logModule m c cre mre log = log @ [(''mod'', m)]"

text \<open>
  An instrumenter made with or without each callback: \<open>provided b f\<close> is the argument
  \<open>f\<close> or \<^verbatim>\<open>undefined\<close>, and \<open>kept cp mp\<close> selects the log entries of the callbacks
  that were given.
\<close>

definition provided :: "bool \<Rightarrow> 'a \<Rightarrow> 'a option" where
  "provided b f = (if b then Some f else None)"

definition kept :: "bool \<Rightarrow> bool \<Rightarrow> notice \<Rightarrow> bool" where
  "kept cp mp n = (case n of ContextNotice _ _ _ \<Rightarrow> cp | ModuleNotice _ _ _ _ \<Rightarrow> mp)"

subsection \<open>Invariants used in the proofs\<close>

text \<open>
  An object whose \<^verbatim>\<open>test\<close> is one of the two installed functions is the object the
  matching closure variable refers to. This holds of every state reached from a new
  instrumenter on a store of plain regular expressions.
\<close>

definition wf :: "'r store \<Rightarrow> vars \<Rightarrow> bool" where
  "wf h st =
     (\<forall>a < length h.
        (test (h ! a) = ContextWrapper \<longrightarrow> contextRegex st = Some a) \<and>
        (test (h ! a) = ModuleWrapper \<longrightarrow> moduleRegex st = Some a))"

text \<open>The clones live above the first \<open>n\<close> references.\<close>

definition above :: "nat \<Rightarrow> 'r store \<Rightarrow> vars \<Rightarrow> bool" where
  "above n h st =
     (n \<le> length h \<and> (\<forall>c. contextRegex st = Some c \<longrightarrow> n \<le> c) \<and>
      (\<forall>c. moduleRegex st = Some c \<longrightarrow> n \<le> c))"

text \<open>
  The relation between a run with the callbacks chosen by \<open>cp\<close> and \<open>mp\<close> (left) and the
  run with both (right): the variables agree as far as the left run's callbacks can see,
  and the left log is the right log restricted to those callbacks.
\<close>

definition sim :: "bool \<Rightarrow> bool \<Rightarrow> vars \<times> notice list \<Rightarrow> vars \<times> notice list \<Rightarrow> bool" where
  "sim cp mp A B =
     (case (A, B) of ((sa, la), (sb, lb)) \<Rightarrow>
        contextRegex sa = contextRegex sb \<and> moduleRegex sa = moduleRegex sb \<and>
        lastContext sa = lastContext sb \<and>
        (cp \<longrightarrow> reportedContext sa = reportedContext sb) \<and>
        (mp \<longrightarrow> lastModule sa = lastModule sb) \<and>
        (cp \<and> \<not> mp \<longrightarrow> lastModule sa = lastModule sb \<or> reportedContext sb) \<and>
        la = filter (kept cp mp) lb)"

text \<open>
  With the logging context callback: once \<^verbatim>\<open>reportedContext\<close> is set the log has at
  most one context entry, and before that it has none.
\<close>

definition once :: "vars \<times> notice list \<Rightarrow> bool" where
  "once A =
     (case A of (st, log) \<Rightarrow>
        (if reportedContext st then length (filter (kept True False) log) \<le> 1
         else filter (kept True False) log = []))"

section \<open>Basic facts\<close>

subsection \<open>The report step\<close>

lemma report_idle:
  assumes "lastModule st = None \<or> lastModule st = Some [] \<or>
           lastContext st = None \<or> lastContext st = Some []"
  shows "report hc hm st w = (st, w)"
  using assms by (auto simp: report_def Let_def split: option.splits if_splits prod.splits)

lemma report_fields:
  assumes "report hc hm st w = (st', w')"
  shows "contextRegex st' = contextRegex st" "moduleRegex st' = moduleRegex st"
    "lastContext st' = lastContext st"
  using assms by (auto simp: report_def Let_def split: option.splits if_splits prod.splits)

lemma report_lastModule:
  assumes "report hc hm st w = (st', w')"
  shows "lastModule st' = lastModule st \<or>
         (lastModule st' = None \<and> (\<exists>m. lastModule st = Some m \<and> m \<noteq> []))"
  using assms by (auto simp: report_def Let_def split: option.splits if_splits prod.splits)

lemma report_silent_after:
  assumes "report hc hm st w = (st', w')"
    and "lastContext st' = Some [] \<or> lastModule st' = Some []"
  shows "w' = w"
proof -
  have "lastContext st = Some [] \<or> lastModule st = Some []"
    using report_fields(3)[OF assms(1)] report_lastModule[OF assms(1)] assms(2) by auto
  then have "report hc hm st w = (st, w)" by (auto intro: report_idle)
  with assms(1) show ?thesis by simp
qed

subsection \<open>Which variables each operation writes\<close>

lemma wrapContext_slots:
  assumes "wrapContext h st p = (r, h', st')"
  shows "moduleRegex st' = moduleRegex st" "lastContext st' = lastContext st"
    "lastModule st' = lastModule st" "reportedContext st' = reportedContext st"
    "contextRegex st \<noteq> None \<Longrightarrow> contextRegex st' = contextRegex st"
  using assms
  by (auto simp: wrapContext_def regexpClone_def
           split: option.splits if_splits prod.splits sum.splits)

lemma wrapModule_slots:
  assumes "wrapModule h st p = (r, h', st')"
  shows "contextRegex st' = contextRegex st" "lastContext st' = lastContext st"
    "lastModule st' = lastModule st" "reportedContext st' = reportedContext st"
    "moduleRegex st \<noteq> None \<Longrightarrow> moduleRegex st' = moduleRegex st"
  using assms
  by (auto simp: wrapModule_def regexpClone_def
           split: option.splits if_splits prod.splits sum.splits)

lemma call_test_regexes:
  assumes "call_test hc hm rt k a s (h, st, w) = (r, h', st', w')"
  shows "contextRegex st' = contextRegex st \<and> moduleRegex st' = moduleRegex st"
  using assms
  by (cases k)
     (auto simp: call_test_def contextRegex_test_def moduleRegex_test_def Let_def
           split: prod.splits sum.splits if_splits dest: report_fields)

lemma call_test_not_once:
  "call_test hc hm rt k a s sys = (Inl e, sys') \<Longrightarrow> e = TypeError"
  by (cases k; cases sys)
     (auto simp: call_test_def contextRegex_test_def moduleRegex_test_def native_test_def Let_def
           split: prod.splits sum.splits if_splits option.splits)

lemma exec_regexes:
  assumes "exec hc hm rt c (h, st, w) = (r, h', st', w')"
  shows "(contextRegex st \<noteq> None \<longrightarrow> contextRegex st' = contextRegex st) \<and>
         (moduleRegex st \<noteq> None \<longrightarrow> moduleRegex st' = moduleRegex st)"
proof (cases c)
  case (Context p)
  then show ?thesis using assms
    by (auto simp: exec_def split: prod.splits sum.splits dest: wrapContext_slots)
next
  case (Module p)
  then show ?thesis using assms
    by (auto simp: exec_def split: prod.splits sum.splits dest: wrapModule_slots)
next
  case (Test a s)
  then show ?thesis using assms
    by (auto simp: exec_def split: prod.splits sum.splits option.splits dest: call_test_regexes)
qed

lemma run_regexes:
  assumes "run hc hm rt cs (h, st, w) = (rs, h', st', w')"
  shows "(contextRegex st \<noteq> None \<longrightarrow> contextRegex st' = contextRegex st) \<and>
         (moduleRegex st \<noteq> None \<longrightarrow> moduleRegex st' = moduleRegex st)"
  using assms
proof (induction cs arbitrary: h st w rs)
  case Nil
  then show ?case by simp
next
  case (Cons c cs)
  obtain r h1 st1 w1 where e: "exec hc hm rt c (h, st, w) = (r, h1, st1, w1)"
    by (metis prod_cases4)
  obtain rs1 where "run hc hm rt cs (h1, st1, w1) = (rs1, h', st', w')"
    using Cons.prems e by (auto split: prod.splits)
  from Cons.IH[OF this] exec_regexes[OF e] show ?case by auto
qed

lemma exec_before_module_match:
  assumes "exec hc hm rt c (h, st, w) = (r, h', st', w')"
    and "lastModule st = None" and "r \<noteq> Tested ModuleWrapper True"
  shows "lastModule st' = None \<and> w' = w"
proof (cases c)
  case (Context p)
  then show ?thesis using assms
    by (auto simp: exec_def split: prod.splits sum.splits dest: wrapContext_slots)
next
  case (Module p)
  then show ?thesis using assms
    by (auto simp: exec_def split: prod.splits sum.splits dest: wrapModule_slots)
next
  case (Test a s)
  then show ?thesis using assms
    by (auto simp: exec_def call_test_def contextRegex_test_def moduleRegex_test_def report_idle
             split: prod.splits sum.splits option.splits test_fn.splits if_splits)
qed

lemma exec_other_slot:
  assumes "exec hc hm rt c (h, st, w) = (r, h', st', w')"
  shows "(\<forall>q. c \<noteq> Context q) \<longrightarrow> contextRegex st' = contextRegex st"
    and "(\<forall>q. c \<noteq> Module q) \<longrightarrow> moduleRegex st' = moduleRegex st"
  using assms
  by (cases c;
      auto simp: exec_def split: prod.splits sum.splits option.splits
           dest: wrapContext_slots wrapModule_slots call_test_regexes)+

lemma run_other_slot:
  assumes "run hc hm rt cs (h, st, w) = (rs, h', st', w')"
  shows "((\<forall>q. Context q \<notin> set cs) \<longrightarrow> contextRegex st' = contextRegex st) \<and>
         ((\<forall>q. Module q \<notin> set cs) \<longrightarrow> moduleRegex st' = moduleRegex st)"
  using assms
proof (induction cs arbitrary: h st w rs)
  case Nil
  then show ?case by simp
next
  case (Cons c cs)
  obtain r h1 st1 w1 where e: "exec hc hm rt c (h, st, w) = (r, h1, st1, w1)"
    by (metis prod_cases4)
  obtain rs1 where "run hc hm rt cs (h1, st1, w1) = (rs1, h', st', w')"
    using Cons.prems e by (auto split: prod.splits)
  from Cons.IH[OF this] exec_other_slot[OF e] show ?case by auto
qed

section \<open>Calling a wrapping function twice\<close>

text \<open>
  C3. Take a state reached from a new instrumenter by the calls \<open>cs0\<close>. If \<^verbatim>\<open>context\<close>
  was not called among them, \<^verbatim>\<open>context(re)\<close> with a regular expression \<open>re\<close> returns
  the wrapped clone, and the same holds of \<^verbatim>\<open>module\<close>: a first call succeeds. Once a
  call of \<^verbatim>\<open>context\<close> has returned a pattern, any later call of \<^verbatim>\<open>context\<close>, after
  whatever other calls \<open>cs\<close>, throws the error of line 53; the same holds of
  \<^verbatim>\<open>module\<close> and the error of line 77.
\<close>

theorem second_wrap_throws:
  assumes "run hc hm rt cs0 (h0, instrument, w0) = (rs0, h, st, w)"
  shows
  "((\<forall>q. Context q \<notin> set cs0) \<and> lookup h p \<noteq> None \<longrightarrow>
      fst (exec hc hm rt (Context p) (h, st, w)) = Wrapped (length h)) \<and>
   ((\<forall>q. Module q \<notin> set cs0) \<and> lookup h p \<noteq> None \<longrightarrow>
      fst (exec hc hm rt (Module p) (h, st, w)) = Wrapped (length h)) \<and>
   (fst (exec hc hm rt (Context p) sys) = Wrapped c \<longrightarrow>
      fst (exec hc hm rt (Context q)
             (snd (run hc hm rt cs (snd (exec hc hm rt (Context p) sys))))) =
        Thrown ContextOnce) \<and>
   (fst (exec hc hm rt (Module p) sys) = Wrapped c \<longrightarrow>
      fst (exec hc hm rt (Module q)
             (snd (run hc hm rt cs (snd (exec hc hm rt (Module p) sys))))) =
        Thrown ModuleOnce)"
proof (intro conjI impI)
  assume "(\<forall>q. Context q \<notin> set cs0) \<and> lookup h p \<noteq> None"
  then have "contextRegex st = None" "lookup h p \<noteq> None"
    using run_other_slot[OF assms] by (auto simp: instrument_def)
  then show "fst (exec hc hm rt (Context p) (h, st, w)) = Wrapped (length h)"
    by (auto simp: exec_def wrapContext_def regexpClone_def lookup_def split: if_splits)
next
  assume "(\<forall>q. Module q \<notin> set cs0) \<and> lookup h p \<noteq> None"
  then have "moduleRegex st = None" "lookup h p \<noteq> None"
    using run_other_slot[OF assms] by (auto simp: instrument_def)
  then show "fst (exec hc hm rt (Module p) (h, st, w)) = Wrapped (length h)"
    by (auto simp: exec_def wrapModule_def regexpClone_def lookup_def split: if_splits)
next
  assume a: "fst (exec hc hm rt (Context p) sys) = Wrapped c"
  obtain h st w where sys: "sys = (h, st, w)" by (cases sys) auto
  obtain r h1 st1 w1 where e: "exec hc hm rt (Context p) (h, st, w) = (r, h1, st1, w1)"
    by (metis prod_cases4)
  have 1: "contextRegex st1 \<noteq> None"
    using e a sys
    by (auto simp: exec_def wrapContext_def regexpClone_def
             split: option.splits if_splits prod.splits sum.splits)
  obtain rs h2 st2 w2 where r: "run hc hm rt cs (h1, st1, w1) = (rs, h2, st2, w2)"
    by (metis prod_cases4)
  have "contextRegex st2 \<noteq> None" using run_regexes[OF r] 1 by auto
  then have "fst (exec hc hm rt (Context q) (h2, st2, w2)) = Thrown ContextOnce"
    by (simp add: exec_def wrapContext_def)
  then show "fst (exec hc hm rt (Context q)
               (snd (run hc hm rt cs (snd (exec hc hm rt (Context p) sys))))) =
             Thrown ContextOnce"
    using sys e r by simp
next
  assume a: "fst (exec hc hm rt (Module p) sys) = Wrapped c"
  obtain h st w where sys: "sys = (h, st, w)" by (cases sys) auto
  obtain r h1 st1 w1 where e: "exec hc hm rt (Module p) (h, st, w) = (r, h1, st1, w1)"
    by (metis prod_cases4)
  have 1: "moduleRegex st1 \<noteq> None"
    using e a sys
    by (auto simp: exec_def wrapModule_def regexpClone_def
             split: option.splits if_splits prod.splits sum.splits)
  obtain rs h2 st2 w2 where r: "run hc hm rt cs (h1, st1, w1) = (rs, h2, st2, w2)"
    by (metis prod_cases4)
  have "moduleRegex st2 \<noteq> None" using run_regexes[OF r] 1 by auto
  then have "fst (exec hc hm rt (Module q) (h2, st2, w2)) = Thrown ModuleOnce"
    by (simp add: exec_def wrapModule_def)
  then show "fst (exec hc hm rt (Module q)
               (snd (run hc hm rt cs (snd (exec hc hm rt (Module p) sys))))) =
             Thrown ModuleOnce"
    using sys e r by simp
qed

text \<open>
  The theorem at work: after \<open>Context 0\<close> and a context test, a first \<open>Module 1\<close> succeeds
  and a second \<open>Context 1\<close> throws; a second \<open>Module 0\<close> throws as well.
\<close>

theorem second_wrap_throws_witness:
  "fst (exec (Some noteContext) (Some noteModule) literals (Context 0)
          (patterns [''/a''] [''m''], instrument, [])) = Wrapped 2 \<and>
   fst (exec (Some noteContext) (Some noteModule) literals (Module 1)
          (snd (run (Some noteContext) (Some noteModule) literals [Context 0, Test 2 ''/a'']
             (patterns [''/a''] [''m''], instrument, [])))) = Wrapped 3 \<and>
   fst (exec (Some noteContext) (Some noteModule) literals (Context 1)
          (snd (run (Some noteContext) (Some noteModule) literals [Test 2 ''/a'']
             (snd (exec (Some noteContext) (Some noteModule) literals (Context 0)
                (patterns [''/a''] [''m''], instrument, [])))))) = Thrown ContextOnce \<and>
   fst (exec (Some noteContext) (Some noteModule) literals (Module 0)
          (snd (run (Some noteContext) (Some noteModule) literals [Test 2 ''m'']
             (snd (exec (Some noteContext) (Some noteModule) literals (Module 1)
                (patterns [''/a''] [''m''], instrument, [])))))) = Thrown ModuleOnce"
proof -
  let ?h = "patterns [''/a''] [''m'']"
  let ?s0 = "(?h, instrument, [] :: notice list)"
  let ?r = "run (Some noteContext) (Some noteModule) literals [Context 0, Test 2 ''/a''] ?s0"
  have r0: "run (Some noteContext) (Some noteModule) literals [] ?s0 = ([], ?h, instrument, [])"
    by simp
  have r1: "?r = (fst ?r, fst (snd ?r), fst (snd (snd ?r)), snd (snd (snd ?r)))"
    by (simp only: prod.collapse)
  have l0: "lookup ?h 0 \<noteq> None" "length ?h = 2" by (simp_all add: lookup_def patterns_def)
  have l1: "lookup (fst (snd ?r)) 1 \<noteq> None" "length (fst (snd ?r)) = 3" by code_simp+
  note a = second_wrap_throws[OF r0, of 0]
  note b = second_wrap_throws[OF r1, of 1]
  have 1: "fst (exec (Some noteContext) (Some noteModule) literals (Context 0) ?s0) = Wrapped 2"
    using conjunct1[OF a] l0 by simp
  have 2: "fst (exec (Some noteContext) (Some noteModule) literals (Module 1) (snd ?r)) = Wrapped 3"
    using conjunct1[OF conjunct2[OF b]] l1 by simp
  have m: "fst (exec (Some noteContext) (Some noteModule) literals (Module 1) ?s0) = Wrapped 2"
    by code_simp
  have 3: "fst (exec (Some noteContext) (Some noteModule) literals (Context 1)
          (snd (run (Some noteContext) (Some noteModule) literals [Test 2 ''/a'']
             (snd (exec (Some noteContext) (Some noteModule) literals (Context 0) ?s0))))) =
           Thrown ContextOnce"
    using conjunct1[OF conjunct2[OF conjunct2[OF a[of ?s0 2 1 "[Test 2 ''/a'']"]]]] 1
    by blast
  have 4: "fst (exec (Some noteContext) (Some noteModule) literals (Module 0)
          (snd (run (Some noteContext) (Some noteModule) literals [Test 2 ''m'']
             (snd (exec (Some noteContext) (Some noteModule) literals (Module 1) ?s0))))) =
           Thrown ModuleOnce"
    using conjunct2[OF conjunct2[OF conjunct2[OF b[of ?s0 2 0 "[Test 2 ''m'']"]]]] m
    by blast
  from 1 2 3 4 show ?thesis by blast
qed

text \<open>
  C10. A call of \<^verbatim>\<open>context\<close> or \<^verbatim>\<open>module\<close> that throws the double-wrap error leaves
  the store, the five variables and the world as they were; so whatever the caller does
  next, \<open>cs\<close>, goes as it would have gone without the failed call.
\<close>

theorem failed_wrap_changes_nothing:
  assumes "fst (exec hc hm rt c sys) = Thrown ContextOnce \<or>
           fst (exec hc hm rt c sys) = Thrown ModuleOnce"
  shows "snd (exec hc hm rt c sys) = sys \<and>
         run hc hm rt cs (snd (exec hc hm rt c sys)) = run hc hm rt cs sys"
proof -
  obtain h st w where sys: "sys = (h, st, w)" by (cases sys) auto
  have "snd (exec hc hm rt c sys) = sys"
  proof (cases c)
    case (Context p)
    then show ?thesis using assms sys
      by (auto simp: exec_def wrapContext_def regexpClone_def
               split: option.splits if_splits prod.splits sum.splits)
  next
    case (Module p)
    then show ?thesis using assms sys
      by (auto simp: exec_def wrapModule_def regexpClone_def
               split: option.splits if_splits prod.splits sum.splits)
  next
    case (Test a s)
    then show ?thesis using assms sys
      by (auto simp: exec_def split: option.splits prod.splits sum.splits
               dest: call_test_not_once)
  qed
  then show ?thesis by simp
qed

text \<open>
  The theorem at work: the state after \<open>Context 0\<close>, \<open>Module 1\<close> and a context match, in
  which a second \<open>Context 1\<close> throws and changes nothing.
\<close>

theorem failed_wrap_changes_nothing_witness:
  "exec (Some noteContext) (Some noteModule) literals (Context 1)
     (patterns [''/a''] [''m''] @
        [\<lparr>slots = [''/a''], test = ContextWrapper\<rparr>, \<lparr>slots = [''m''], test = ModuleWrapper\<rparr>],
      \<lparr>contextRegex = Some 2, moduleRegex = Some 3, lastContext = Some ''/a'',
        lastModule = None, reportedContext = False\<rparr>, []) =
   (Thrown ContextOnce,
     patterns [''/a''] [''m''] @
        [\<lparr>slots = [''/a''], test = ContextWrapper\<rparr>, \<lparr>slots = [''m''], test = ModuleWrapper\<rparr>],
      \<lparr>contextRegex = Some 2, moduleRegex = Some 3, lastContext = Some ''/a'',
        lastModule = None, reportedContext = False\<rparr>, [])"
proof -
  let ?sys = "(patterns [''/a''] [''m''] @
        [\<lparr>slots = [''/a''], test = ContextWrapper\<rparr>, \<lparr>slots = [''m''], test = ModuleWrapper\<rparr>],
      \<lparr>contextRegex = Some 2, moduleRegex = Some 3, lastContext = Some ''/a'',
        lastModule = None, reportedContext = False\<rparr>, [] :: notice list)"
  have t: "fst (exec (Some noteContext) (Some noteModule) literals (Context 1) ?sys) =
           Thrown ContextOnce"
    by (simp add: exec_def wrapContext_def)
  from failed_wrap_changes_nothing[of "Some noteContext" "Some noteModule" literals "Context 1" ?sys "[]"] t
  have "snd (exec (Some noteContext) (Some noteModule) literals (Context 1) ?sys) = ?sys"
    by simp
  with t show ?thesis by (metis prod.collapse)
qed

section \<open>When the callbacks are called\<close>

text \<open>
  C4. From a new instrumenter, as long as no test of the wrapped module pattern has
  returned true, the world is as it was at the start, whatever the callbacks are and
  however many context tests have matched: neither callback has been called.
\<close>

theorem no_report_before_module_match:
  assumes "run hc hm rt cs (h, instrument, w) = (rs, h', st', w')"
    and "Tested ModuleWrapper True \<notin> set rs"
  shows "w' = w"
proof -
  have "run hc hm rt cs (h, st, w) = (rs, h', st', w') \<Longrightarrow> lastModule st = None \<Longrightarrow>
        Tested ModuleWrapper True \<notin> set rs \<Longrightarrow> w' = w" for st
  proof (induction cs arbitrary: h st rs)
    case Nil
    then show ?case by simp
  next
    case (Cons c cs)
    obtain r h1 st1 w1 where e: "exec hc hm rt c (h, st, w) = (r, h1, st1, w1)"
      by (metis prod_cases4)
    obtain rs1 where r: "run hc hm rt cs (h1, st1, w1) = (rs1, h', st', w')"
      and rs: "rs = r # rs1"
      using Cons.prems(1) e by (auto split: prod.splits)
    have "lastModule st1 = None \<and> w1 = w"
      using exec_before_module_match[OF e Cons.prems(2)] Cons.prems(3) rs by auto
    with Cons.IH[of h1 st1 rs1] r Cons.prems(3) rs show ?case by auto
  qed
  from this[OF assms(1) _ assms(2)] show ?thesis by (simp add: instrument_def)
qed

text \<open>
  The theorem at work: two context matches around a module test that fails. The log of
  the callbacks stays empty.
\<close>

theorem no_report_before_module_match_witness:
  "Tested ModuleWrapper True \<notin>
     set (fst (run (Some noteContext) (Some noteModule) literals
       [Context 0, Module 1, Test 2 ''/a'', Test 3 ''zzz'', Test 2 ''/b'']
       (patterns [''/a'', ''/b''] [''m1''], instrument, []))) \<and>
   snd (snd (snd (run (Some noteContext) (Some noteModule) literals
       [Context 0, Module 1, Test 2 ''/a'', Test 3 ''zzz'', Test 2 ''/b'']
       (patterns [''/a'', ''/b''] [''m1''], instrument, [])))) = []"
proof -
  let ?r = "run (Some noteContext) (Some noteModule) literals
       [Context 0, Module 1, Test 2 ''/a'', Test 3 ''zzz'', Test 2 ''/b'']
       (patterns [''/a'', ''/b''] [''m1''], instrument, [])"
  have f: "fst ?r = [Wrapped 2, Wrapped 3, Tested ContextWrapper True,
                     Tested ModuleWrapper False, Tested ContextWrapper True]"
    by code_simp
  have n: "Tested ModuleWrapper True \<notin> set (fst ?r)"
    unfolding f by simp
  have c: "?r = (fst ?r, fst (snd ?r), fst (snd (snd ?r)), snd (snd (snd ?r)))"
    by (simp only: prod.collapse)
  have "snd (snd (snd ?r)) = []"
    by (rule no_report_before_module_match[OF c n])
  with n show ?thesis by simp
qed

text \<open>
  C9. A test that matches the empty string stores it: after a true test of the context
  pattern on \<open>''''\<close> the variable \<^verbatim>\<open>lastContext\<close> is the empty string, and likewise
  \<^verbatim>\<open>lastModule\<close> after a true test of the module pattern. The guards of \<^verbatim>\<open>report\<close>
  read the empty string as false: a call that ends with \<^verbatim>\<open>lastContext\<close> or
  \<^verbatim>\<open>lastModule\<close> empty has left the world as it was, so no callback ran in it.
\<close>

theorem empty_string_is_never_reported:
  assumes "exec hc hm rt c (h, st, w) = (r, h', st', w')"
  shows "(c = Test a [] \<and> r = Tested ContextWrapper True \<longrightarrow> lastContext st' = Some []) \<and>
         (c = Test a [] \<and> r = Tested ModuleWrapper True \<longrightarrow> lastModule st' = Some []) \<and>
         (lastContext st' = Some [] \<or> lastModule st' = Some [] \<longrightarrow> w' = w)"
proof (intro conjI impI)
  assume "c = Test a [] \<and> r = Tested ContextWrapper True"
  then show "lastContext st' = Some []"
    using assms
    by (auto simp: exec_def call_test_def contextRegex_test_def report_idle
             split: prod.splits sum.splits option.splits test_fn.splits if_splits)
next
  assume "c = Test a [] \<and> r = Tested ModuleWrapper True"
  then show "lastModule st' = Some []"
    using assms
    by (auto simp: exec_def call_test_def moduleRegex_test_def report_idle
             split: prod.splits sum.splits option.splits test_fn.splits if_splits)
next
  assume e: "lastContext st' = Some [] \<or> lastModule st' = Some []"
  show "w' = w"
  proof (cases c)
    case (Context p)
    then show ?thesis using assms by (auto simp: exec_def split: prod.splits sum.splits)
  next
    case (Module p)
    then show ?thesis using assms by (auto simp: exec_def split: prod.splits sum.splits)
  next
    case (Test b s)
    then show ?thesis using assms e
      by (auto simp: exec_def call_test_def contextRegex_test_def moduleRegex_test_def Let_def
               split: prod.splits sum.splits option.splits test_fn.splits if_splits
               dest: report_silent_after)
  qed
qed

text \<open>
  The theorem at work: a module match is pending and the context pattern matches the
  empty string. The empty string is stored and nothing is reported.
\<close>

theorem empty_string_is_never_reported_witness:
  "exec (Some noteContext) (Some noteModule) literals (Test 2 [])
     (patterns [[]] [''m''] @
        [\<lparr>slots = [[]], test = ContextWrapper\<rparr>, \<lparr>slots = [''m''], test = ModuleWrapper\<rparr>],
      \<lparr>contextRegex = Some 2, moduleRegex = Some 3, lastContext = None,
        lastModule = Some ''m'', reportedContext = False\<rparr>, []) =
   (Tested ContextWrapper True,
    patterns [[]] [''m''] @
        [\<lparr>slots = [[]], test = ContextWrapper\<rparr>, \<lparr>slots = [''m''], test = ModuleWrapper\<rparr>],
      \<lparr>contextRegex = Some 2, moduleRegex = Some 3, lastContext = Some [],
        lastModule = Some ''m'', reportedContext = False\<rparr>, [])"
proof -
  let ?h = "patterns [[]] [''m''] @
        [\<lparr>slots = [[]], test = ContextWrapper\<rparr>, \<lparr>slots = [''m''], test = ModuleWrapper\<rparr>]"
  let ?st = "\<lparr>contextRegex = Some 2, moduleRegex = Some 3, lastContext = None,
        lastModule = Some ''m'', reportedContext = False\<rparr>"
  let ?e = "exec (Some noteContext) (Some noteModule) literals (Test 2 []) (?h, ?st, [])"
  have c: "?e = (fst ?e, fst (snd ?e), fst (snd (snd ?e)), snd (snd (snd ?e)))"
    by (simp only: prod.collapse)
  have 1: "fst ?e = Tested ContextWrapper True" by code_simp
  have 2: "fst (snd ?e) = ?h" by code_simp
  have 3: "fst (snd (snd ?e)) = \<lparr>contextRegex = Some 2, moduleRegex = Some 3,
        lastContext = Some [], lastModule = Some ''m'', reportedContext = False\<rparr>"
    by code_simp
  from empty_string_is_never_reported[OF c, of 2] 1 3
  have 4: "snd (snd (snd ?e)) = []" by simp
  show ?thesis by (subst c) (simp only: 1 2 3 4)
qed

section \<open>The wrapped test and the engine's test\<close>

subsection \<open>The invariant of the installed functions\<close>

lemma wf_instrument: "list_all (\<lambda>obj. test obj = NativeTest) h \<Longrightarrow> wf h instrument"
  by (simp add: wf_def list_all_length)

lemma native_test_shape:
  assumes "native_test rt h this s = (r, h')"
  shows "length h' = length h \<and> (\<forall>a < length h. test (h' ! a) = test (h ! a))"
  using assms
  by (auto simp: native_test_def lookup_def nth_list_update
           split: option.splits prod.splits if_splits)

lemma call_test_shape:
  assumes "call_test hc hm rt k a s (h, st, w) = (r, h', st', w')"
  shows "length h' = length h \<and> (\<forall>a < length h. test (h' ! a) = test (h ! a))"
  using assms
  by (cases k)
     (auto simp: call_test_def contextRegex_test_def moduleRegex_test_def Let_def
           split: prod.splits sum.splits if_splits dest: native_test_shape)

lemma wf_shape:
  assumes "wf h st"
    and "length h' = length h \<and> (\<forall>a < length h. test (h' ! a) = test (h ! a))"
    and "contextRegex st' = contextRegex st" and "moduleRegex st' = moduleRegex st"
  shows "wf h' st'"
  using assms by (simp add: wf_def)

lemma wf_wrapContext:
  assumes "wf h st" and "wrapContext h st p = (r, h', st')"
  shows "wf h' st'"
  using assms
  by (auto simp: wf_def wrapContext_def regexpClone_def lookup_def nth_append nth_list_update
           split: option.splits if_splits prod.splits sum.splits)

lemma wf_wrapModule:
  assumes "wf h st" and "wrapModule h st p = (r, h', st')"
  shows "wf h' st'"
  using assms
  by (auto simp: wf_def wrapModule_def regexpClone_def lookup_def nth_append nth_list_update
           split: option.splits if_splits prod.splits sum.splits)

lemma wf_exec:
  assumes "wf h st" and "exec hc hm rt c (h, st, w) = (r, h', st', w')"
  shows "wf h' st'"
proof (cases c)
  case (Context p)
  then show ?thesis using assms
    by (auto simp: exec_def split: prod.splits sum.splits dest: wf_wrapContext)
next
  case (Module p)
  then show ?thesis using assms
    by (auto simp: exec_def split: prod.splits sum.splits dest: wf_wrapModule)
next
  case (Test a s)
  show ?thesis
  proof (cases "lookup h a")
    case None
    then show ?thesis using assms Test by (simp add: exec_def)
  next
    case (Some obj)
    obtain r1 where ct: "call_test hc hm rt (test obj) a s (h, st, w) = (r1, h', st', w')"
      using assms(2) Test Some by (auto simp: exec_def split: prod.splits sum.splits)
    show ?thesis
      using wf_shape[OF assms(1) call_test_shape[OF ct]] call_test_regexes[OF ct] by simp
  qed
qed

lemma wf_run:
  assumes "wf h st" and "run hc hm rt cs (h, st, w) = (rs, h', st', w')"
  shows "wf h' st'"
  using assms
proof (induction cs arbitrary: h st w rs)
  case Nil
  then show ?case by simp
next
  case (Cons c cs)
  obtain r h1 st1 w1 where e: "exec hc hm rt c (h, st, w) = (r, h1, st1, w1)"
    by (metis prod_cases4)
  obtain rs1 where "run hc hm rt cs (h1, st1, w1) = (rs1, h', st', w')"
    using Cons.prems e by (auto split: prod.splits)
  from Cons.IH[OF wf_exec[OF Cons.prems(1) e] this] show ?case .
qed

text \<open>
  In a state with the invariant, \<^verbatim>\<open>test\<close> on any regular expression object returns the
  engine's answer for that object and leaves the store as the engine does.
\<close>

lemma wf_test:
  assumes "wf h st" and "lookup h a = Some obj"
  shows "\<exists>st' w'. exec hc hm rt (Test a s) (h, st, w) =
           (Tested (test obj) (fst (rt (slots obj) s)),
            h[a := obj\<lparr>slots := snd (rt (slots obj) s)\<rparr>], st', w')"
proof -
  have a: "a < length h" and obj: "obj = h ! a"
    using assms(2) by (auto simp: lookup_def split: if_splits)
  have nt: "native_test rt h (Some a) s =
          (Inr (fst (rt (slots obj) s)), h[a := obj\<lparr>slots := snd (rt (slots obj) s)\<rparr>])"
    using assms(2) by (simp add: native_test_def split: prod.splits)
  show ?thesis
  proof (cases "test obj")
    case NativeTest
    then show ?thesis using assms(2) nt by (simp add: exec_def call_test_def)
  next
    case ContextWrapper
    then have "contextRegex st = Some a" using assms(1) a obj by (simp add: wf_def)
    then show ?thesis using assms(2) nt ContextWrapper
      by (auto simp: exec_def call_test_def contextRegex_test_def Let_def split: prod.splits)
  next
    case ModuleWrapper
    then have "moduleRegex st = Some a" using assms(1) a obj by (simp add: wf_def)
    then show ?thesis using assms(2) nt ModuleWrapper
      by (auto simp: exec_def call_test_def moduleRegex_test_def Let_def split: prod.splits)
  qed
qed

lemma wrapContext_clone:
  assumes "wrapContext h st p = (Inr c, h1, st1)" and "lookup h p = Some obj"
  shows "lookup h1 c = Some \<lparr>slots = slots obj, test = ContextWrapper\<rparr>"
  using assms
  by (auto simp: wrapContext_def regexpClone_def lookup_def
           split: option.splits if_splits prod.splits sum.splits)

lemma wrapModule_clone:
  assumes "wrapModule h st p = (Inr c, h1, st1)" and "lookup h p = Some obj"
  shows "lookup h1 c = Some \<lparr>slots = slots obj, test = ModuleWrapper\<rparr>"
  using assms
  by (auto simp: wrapModule_def regexpClone_def lookup_def
           split: option.splits if_splits prod.splits sum.splits)

subsection \<open>Transparency\<close>

text \<open>
  C2. Take any state reached from a new instrumenter on a store of plain regular
  expressions, and any regular expression object \<open>obj\<close> in it, wrapped or not. Its
  \<^verbatim>\<open>test\<close> on a string \<open>s\<close> returns what the engine's test returns for the pattern of
  \<open>obj\<close> on \<open>s\<close>, and changes the store as the engine's test does and not otherwise. For
  the two wrapped patterns (\<open>test obj\<close> is \<open>ContextWrapper\<close> or \<open>ModuleWrapper\<close>) this is
  the transparency of the wrapper. Moreover the pattern that \<^verbatim>\<open>context\<close> or
  \<^verbatim>\<open>module\<close> returns for \<open>obj\<close> answers \<open>s\<close> as the engine answers for \<open>obj\<close>.
\<close>

theorem wrapped_test_is_transparent:
  assumes "list_all (\<lambda>obj. test obj = NativeTest) h0"
    and "run hc hm rt cs (h0, instrument, w0) = (rs, h, st, w)"
    and "lookup h a = Some obj"
  shows "fst (exec hc hm rt (Test a s) (h, st, w)) =
           Tested (test obj) (fst (rt (slots obj) s)) \<and>
         fst (snd (exec hc hm rt (Test a s) (h, st, w))) =
           h[a := obj\<lparr>slots := snd (rt (slots obj) s)\<rparr>] \<and>
         (\<forall>c sys1. exec hc hm rt (Context a) (h, st, w) = (Wrapped c, sys1) \<longrightarrow>
            fst (exec hc hm rt (Test c s) sys1) =
              Tested ContextWrapper (fst (rt (slots obj) s))) \<and>
         (\<forall>c sys1. exec hc hm rt (Module a) (h, st, w) = (Wrapped c, sys1) \<longrightarrow>
            fst (exec hc hm rt (Test c s) sys1) =
              Tested ModuleWrapper (fst (rt (slots obj) s)))"
proof (intro conjI allI impI)
  have wf: "wf h st" using wf_run[OF wf_instrument[OF assms(1)] assms(2)] .
  from wf_test[OF wf assms(3), of hc hm rt s w]
  show "fst (exec hc hm rt (Test a s) (h, st, w)) = Tested (test obj) (fst (rt (slots obj) s))"
    and "fst (snd (exec hc hm rt (Test a s) (h, st, w))) =
           h[a := obj\<lparr>slots := snd (rt (slots obj) s)\<rparr>]"
    by auto
  {
    fix c sys1
    assume e: "exec hc hm rt (Context a) (h, st, w) = (Wrapped c, sys1)"
    obtain h1 st1 where w1: "wrapContext h st a = (Inr c, h1, st1)" and s1: "sys1 = (h1, st1, w)"
      using e by (auto simp: exec_def split: prod.splits sum.splits)
    from wf_test[OF wf_wrapContext[OF wf w1] wrapContext_clone[OF w1 assms(3)], of hc hm rt s w]
    show "fst (exec hc hm rt (Test c s) sys1) = Tested ContextWrapper (fst (rt (slots obj) s))"
      using s1 by auto
  }
  {
    fix c sys1
    assume e: "exec hc hm rt (Module a) (h, st, w) = (Wrapped c, sys1)"
    obtain h1 st1 where w1: "wrapModule h st a = (Inr c, h1, st1)" and s1: "sys1 = (h1, st1, w)"
      using e by (auto simp: exec_def split: prod.splits sum.splits)
    from wf_test[OF wf_wrapModule[OF wf w1] wrapModule_clone[OF w1 assms(3)], of hc hm rt s w]
    show "fst (exec hc hm rt (Test c s) sys1) = Tested ModuleWrapper (fst (rt (slots obj) s))"
      using s1 by auto
  }
qed

text \<open>
  The theorem at work, with the pattern \<^verbatim>\<open>/^\/a$/\<close> at reference 0: the context
  pattern made from it answers \<open>''/a''\<close> with true and \<open>''/b''\<close> with false, as the
  pattern itself does.
\<close>

theorem wrapped_test_is_transparent_witness:
  "fst (exec (Some noteContext) (Some noteModule) literals (Test 0 ''/a'')
          (patterns [''/a''] [''m''], instrument, [])) = Tested NativeTest True \<and>
   fst (exec (Some noteContext) (Some noteModule) literals (Test 2 ''/a'')
          (snd (exec (Some noteContext) (Some noteModule) literals (Context 0)
             (patterns [''/a''] [''m''], instrument, [])))) = Tested ContextWrapper True \<and>
   fst (exec (Some noteContext) (Some noteModule) literals (Test 2 ''/b'')
          (snd (exec (Some noteContext) (Some noteModule) literals (Context 0)
             (patterns [''/a''] [''m''], instrument, [])))) = Tested ContextWrapper False"
proof -
  let ?h = "patterns [''/a''] [''m'']"
  let ?e = "exec (Some noteContext) (Some noteModule) literals (Context 0) (?h, instrument, [])"
  have n: "list_all (\<lambda>obj. test obj = NativeTest) ?h" by (simp add: patterns_def)
  have r: "run (Some noteContext) (Some noteModule) literals [] (?h, instrument, []) =
           ([], ?h, instrument, [])" by simp
  have l: "lookup ?h 0 = Some \<lparr>slots = [''/a''], test = NativeTest\<rparr>"
    by (simp add: lookup_def patterns_def)
  have e: "?e = (Wrapped 2, snd ?e)"
    by (simp add: exec_def wrapContext_def regexpClone_def instrument_def lookup_def patterns_def)
  note t = wrapped_test_is_transparent[OF n r l]
  have 1: "fst (exec (Some noteContext) (Some noteModule) literals (Test 0 ''/a'')
                 (?h, instrument, [])) =
           Tested (test \<lparr>slots = [''/a''], test = NativeTest\<rparr>)
             (fst (literals (slots \<lparr>slots = [''/a''], test = NativeTest\<rparr>) ''/a''))"
    using t[of "''/a''"] by blast
  have 2: "fst (exec (Some noteContext) (Some noteModule) literals (Test 2 s) (snd ?e)) =
           Tested ContextWrapper
             (fst (literals (slots \<lparr>slots = [''/a''], test = NativeTest\<rparr>) s))" for s
    using t[of s] e by blast
  from 1 2[of "''/a''"] 2[of "''/b''"] show ?thesis by (simp add: literals_def)
qed

section \<open>The pattern given to a wrapping function\<close>

lemma native_test_frame:
  assumes "native_test rt h this s = (r, h')" and "this \<noteq> Some a"
  shows "lookup h' a = lookup h a"
  using assms
  by (auto simp: native_test_def lookup_def split: option.splits prod.splits if_splits)

lemma call_test_frame:
  assumes "call_test hc hm rt k b s (h, st, w) = (r, h', st', w')"
    and "above n h st" and "a < n" and "b \<noteq> a"
  shows "lookup h' a = lookup h a"
proof -
  have "contextRegex st \<noteq> Some a" "moduleRegex st \<noteq> Some a"
    using assms(2,3) by (auto simp: above_def)
  then show ?thesis using assms(1,4)
    by (cases k)
       (auto simp: call_test_def contextRegex_test_def moduleRegex_test_def Let_def
             split: prod.splits sum.splits if_splits dest: native_test_frame)
qed

lemma exec_frame:
  assumes "exec hc hm rt c (h, st, w) = (r, h', st', w')"
    and "above n h st" and "a < n" and "\<forall>s. c \<noteq> Test a s"
  shows "lookup h' a = lookup h a \<and> above n h' st' \<and> (\<forall>x. r = Wrapped x \<longrightarrow> n \<le> x)"
proof (cases c)
  case (Context p)
  then show ?thesis using assms
    by (auto simp: exec_def above_def wrapContext_def regexpClone_def lookup_def nth_append
             split: prod.splits sum.splits option.splits if_splits)
next
  case (Module p)
  then show ?thesis using assms
    by (auto simp: exec_def above_def wrapModule_def regexpClone_def lookup_def nth_append
             split: prod.splits sum.splits option.splits if_splits)
next
  case (Test b s)
  show ?thesis
  proof (cases "lookup h b")
    case None
    then show ?thesis using assms Test by (auto simp: exec_def)
  next
    case (Some obj)
    obtain r1 where ct: "call_test hc hm rt (test obj) b s (h, st, w) = (r1, h', st', w')"
      using assms(1) Test Some by (auto simp: exec_def split: prod.splits sum.splits)
    have "b \<noteq> a" using assms(4) Test by auto
    from call_test_frame[OF ct assms(2,3) this] call_test_shape[OF ct] call_test_regexes[OF ct]
    show ?thesis using assms(1,2) Test Some
      by (auto simp: above_def exec_def split: prod.splits sum.splits)
  qed
qed

lemma run_frame:
  assumes "run hc hm rt cs (h, st, w) = (rs, h', st', w')"
    and "above n h st" and "a < n" and "\<forall>s. Test a s \<notin> set cs"
  shows "lookup h' a = lookup h a \<and> (\<forall>x. Wrapped x \<in> set rs \<longrightarrow> n \<le> x)"
  using assms
proof (induction cs arbitrary: h st w rs)
  case Nil
  then show ?case by auto
next
  case (Cons c cs)
  obtain r h1 st1 w1 where e: "exec hc hm rt c (h, st, w) = (r, h1, st1, w1)"
    by (metis prod_cases4)
  obtain rs1 where r: "run hc hm rt cs (h1, st1, w1) = (rs1, h', st', w')"
    and rs: "rs = r # rs1"
    using Cons.prems(1) e by (auto split: prod.splits)
  have c: "\<forall>s. c \<noteq> Test a s" and cs: "\<forall>s. Test a s \<notin> set cs"
    using Cons.prems(4) by auto
  note 1 = exec_frame[OF e Cons.prems(2,3) c]
  from Cons.IH[OF r _ Cons.prems(3) cs] 1 rs show ?case by auto
qed

text \<open>
  C8. Let \<open>a\<close> be a regular expression object that exists when the instrumenter is made,
  and let the caller do anything with the instrumenter and the patterns it returns,
  short of testing \<open>a\<close> itself. Then \<open>a\<close> is as it was, pattern, \<^verbatim>\<open>lastIndex\<close> and
  \<^verbatim>\<open>test\<close> property; no pattern returned by \<^verbatim>\<open>context\<close> or \<^verbatim>\<open>module\<close> is \<open>a\<close>;
  and if \<open>a\<close> has the engine's \<^verbatim>\<open>test\<close>, testing it now is the engine's test and
  nothing else: the variables and the world stay as they are.
\<close>

theorem original_pattern_is_untouched:
  assumes "run hc hm rt cs (h0, instrument, w0) = (rs, h, st, w)"
    and "a < length h0" and "\<forall>s. Test a s \<notin> set cs"
  shows "lookup h a = lookup h0 a \<and> Wrapped a \<notin> set rs \<and>
         (test (h0 ! a) = NativeTest \<longrightarrow>
            exec hc hm rt (Test a s) (h, st, w) =
              (Tested NativeTest (fst (rt (slots (h0 ! a)) s)),
               h[a := (h0 ! a)\<lparr>slots := snd (rt (slots (h0 ! a)) s)\<rparr>], st, w))"
proof -
  have "above (length h0) h0 instrument" by (simp add: above_def instrument_def)
  from run_frame[OF assms(1) this assms(2,3)]
  have 1: "lookup h a = lookup h0 a" and 2: "\<forall>x. Wrapped x \<in> set rs \<longrightarrow> length h0 \<le> x"
    by auto
  from 2 assms(2) have 3: "Wrapped a \<notin> set rs" by auto
  have 4: "lookup h a = Some (h0 ! a)" using 1 assms(2) by (simp add: lookup_def)
  have "test (h0 ! a) = NativeTest \<Longrightarrow>
            exec hc hm rt (Test a s) (h, st, w) =
              (Tested NativeTest (fst (rt (slots (h0 ! a)) s)),
               h[a := (h0 ! a)\<lparr>slots := snd (rt (slots (h0 ! a)) s)\<rparr>], st, w)"
    using 4 by (simp add: exec_def call_test_def native_test_def split: prod.splits)
  with 1 3 show ?thesis by simp
qed

text \<open>
  The theorem at work: the pattern at reference 0 is wrapped, the wrapped patterns are
  tested and report, and the object at reference 0 is still the one that was passed in.
\<close>

theorem original_pattern_is_untouched_witness:
  "lookup (fst (snd (run (Some noteContext) (Some noteModule) literals
       [Context 0, Module 1, Test 2 ''/a'', Test 3 ''m'']
       (patterns [''/a''] [''m''], instrument, [])))) 0 =
     Some \<lparr>slots = [''/a''], test = NativeTest\<rparr> \<and>
   Wrapped 0 \<notin> set (fst (run (Some noteContext) (Some noteModule) literals
       [Context 0, Module 1, Test 2 ''/a'', Test 3 ''m'']
       (patterns [''/a''] [''m''], instrument, [])))"
proof -
  let ?cs = "[Context 0, Module 1, Test 2 ''/a'', Test 3 ''m'']"
  let ?h = "patterns [''/a''] [''m'']"
  let ?r = "run (Some noteContext) (Some noteModule) literals ?cs (?h, instrument, [])"
  have c: "?r = (fst ?r, fst (snd ?r), fst (snd (snd ?r)), snd (snd (snd ?r)))"
    by (simp only: prod.collapse)
  have a: "0 < length ?h" by (simp add: patterns_def)
  have n: "\<forall>s. Test 0 s \<notin> set ?cs" by simp
  have l: "lookup ?h 0 = Some \<lparr>slots = [''/a''], test = NativeTest\<rparr>"
    by (simp add: lookup_def patterns_def)
  from original_pattern_is_untouched[OF c a n] l show ?thesis by simp
qed

section \<open>Instrumenters made without a callback\<close>

text \<open>
  The run with the callbacks chosen by \<open>cp\<close> and \<open>mp\<close> and the run with both stay
  related by \<open>sim\<close>: through the report step, through the two installed functions (whose
  guards may differ, since only a given \<^verbatim>\<open>handleModule\<close> clears \<^verbatim>\<open>lastModule\<close>),
  through every call and through a whole run.
\<close>

lemma sim_report:
  assumes "sim cp mp (sa, la) (sb, lb)"
  shows "sim cp mp (report (provided cp noteContext) (provided mp noteModule) sa la)
                   (report (Some noteContext) (Some noteModule) sb lb)"
  using assms
  by (cases cp; cases mp)
     (auto simp: sim_def report_def provided_def kept_def noteContext_def noteModule_def Let_def
           split: option.splits)

lemma sim_report_left:
  assumes "sim cp mp (sa, la) (sb, lb)" and "lastModule sb = Some s" and "lastModule sa \<noteq> Some s"
  shows "sim cp mp (report (provided cp noteContext) (provided mp noteModule) (sa\<lparr>lastModule := Some s\<rparr>) la)
                   (sb, lb)"
  using assms
  by (cases cp; cases mp)
     (auto simp: sim_def report_def provided_def kept_def noteContext_def noteModule_def Let_def
           split: option.splits)

lemma sim_report_right:
  assumes "sim cp mp (sa, la) (sb, lb)" and "lastModule sa = Some s" and "lastModule sb \<noteq> Some s"
  shows "sim cp mp (sa, la)
                   (report (Some noteContext) (Some noteModule) (sb\<lparr>lastModule := Some s\<rparr>) lb)"
  using assms
  by (cases cp; cases mp)
     (auto simp: sim_def report_def provided_def kept_def noteContext_def noteModule_def Let_def
           split: option.splits)

lemma sim_regexes:
  assumes "sim cp mp (sa, la) (sb, lb)"
  shows "contextRegex sa = contextRegex sb" "moduleRegex sa = moduleRegex sb"
    "lastContext sa = lastContext sb"
  using assms by (auto simp: sim_def)

lemma sim_update:
  "sim cp mp (sa, la) (sb, lb) \<Longrightarrow>
   sim cp mp (sa\<lparr>lastContext := x\<rparr>, la) (sb\<lparr>lastContext := x\<rparr>, lb)"
  "sim cp mp (sa, la) (sb, lb) \<Longrightarrow>
   sim cp mp (sa\<lparr>lastModule := x\<rparr>, la) (sb\<lparr>lastModule := x\<rparr>, lb)"
  by (auto simp: sim_def)

lemma sim_contextRegex_test:
  assumes "sim cp mp (sa, la) (sb, lb)"
  shows "fst (contextRegex_test (provided cp noteContext) (provided mp noteModule) rt s (h, sa, la)) =
         fst (contextRegex_test (Some noteContext) (Some noteModule) rt s (h, sb, lb)) \<and>
         fst (snd (contextRegex_test (provided cp noteContext) (provided mp noteModule) rt s (h, sa, la))) =
         fst (snd (contextRegex_test (Some noteContext) (Some noteModule) rt s (h, sb, lb))) \<and>
         sim cp mp
          (snd (snd (contextRegex_test (provided cp noteContext) (provided mp noteModule) rt s (h, sa, la))))
          (snd (snd (contextRegex_test (Some noteContext) (Some noteModule) rt s (h, sb, lb))))"
proof -
  note r = sim_regexes[OF assms]
  obtain r1 h1 where nt: "native_test rt h (contextRegex sb) s = (r1, h1)"
    by (cases "native_test rt h (contextRegex sb) s")
  show ?thesis
  proof (cases r1)
    case (Inl e)
    then show ?thesis using assms r nt by (simp add: contextRegex_test_def)
  next
    case (Inr b)
    show ?thesis
    proof (cases "b \<and> Some s \<noteq> lastContext sb")
      case True
      have "sim cp mp
              (report (provided cp noteContext) (provided mp noteModule)
                 (sa\<lparr>lastContext := Some s\<rparr>) la)
              (report (Some noteContext) (Some noteModule) (sb\<lparr>lastContext := Some s\<rparr>) lb)"
        by (rule sim_report[OF sim_update(1)[OF assms]])
      then show ?thesis using r nt Inr True
        by (simp add: contextRegex_test_def case_prod_unfold)
    next
      case False
      then show ?thesis using assms r nt Inr
        by (auto simp: contextRegex_test_def)
    qed
  qed
qed

lemma sim_moduleRegex_test:
  assumes "sim cp mp (sa, la) (sb, lb)"
  shows "fst (moduleRegex_test (provided cp noteContext) (provided mp noteModule) rt s (h, sa, la)) =
         fst (moduleRegex_test (Some noteContext) (Some noteModule) rt s (h, sb, lb)) \<and>
         fst (snd (moduleRegex_test (provided cp noteContext) (provided mp noteModule) rt s (h, sa, la))) =
         fst (snd (moduleRegex_test (Some noteContext) (Some noteModule) rt s (h, sb, lb))) \<and>
         sim cp mp
          (snd (snd (moduleRegex_test (provided cp noteContext) (provided mp noteModule) rt s (h, sa, la))))
          (snd (snd (moduleRegex_test (Some noteContext) (Some noteModule) rt s (h, sb, lb))))"
proof -
  note r = sim_regexes[OF assms]
  obtain r1 h1 where nt: "native_test rt h (moduleRegex sb) s = (r1, h1)"
    by (cases "native_test rt h (moduleRegex sb) s")
  show ?thesis
  proof (cases r1)
    case (Inl e)
    then show ?thesis using assms r nt by (simp add: moduleRegex_test_def)
  next
    case (Inr b)
    show ?thesis
    proof (cases b)
      case False
      then show ?thesis using assms r nt Inr by (simp add: moduleRegex_test_def)
    next
      case True
      consider (both) "Some s \<noteq> lastModule sa" "Some s \<noteq> lastModule sb"
        | (left) "Some s \<noteq> lastModule sa" "Some s = lastModule sb"
        | (right) "Some s = lastModule sa" "Some s \<noteq> lastModule sb"
        | (none) "Some s = lastModule sa" "Some s = lastModule sb"
        by blast
      then show ?thesis
      proof cases
        case both
        have "sim cp mp
                (report (provided cp noteContext) (provided mp noteModule)
                   (sa\<lparr>lastModule := Some s\<rparr>) la)
                (report (Some noteContext) (Some noteModule) (sb\<lparr>lastModule := Some s\<rparr>) lb)"
          by (rule sim_report[OF sim_update(2)[OF assms]])
        then show ?thesis using r nt Inr True both
          by (simp add: moduleRegex_test_def case_prod_unfold)
      next
        case left
        have "sim cp mp
                (report (provided cp noteContext) (provided mp noteModule)
                   (sa\<lparr>lastModule := Some s\<rparr>) la)
                (sb, lb)"
          by (rule sim_report_left[OF assms left(2)[symmetric] not_sym[OF left(1)]])
        then show ?thesis using r nt Inr True left
          by (simp add: moduleRegex_test_def case_prod_unfold)
      next
        case right
        have "sim cp mp (sa, la)
                (report (Some noteContext) (Some noteModule) (sb\<lparr>lastModule := Some s\<rparr>) lb)"
          by (rule sim_report_right[OF assms right(1)[symmetric] not_sym[OF right(2)]])
        then show ?thesis using r nt Inr True right
          by (simp add: moduleRegex_test_def case_prod_unfold)
      next
        case none
        then show ?thesis using assms r nt Inr True
          by (simp add: moduleRegex_test_def)
      qed
    qed
  qed
qed

lemma wrapContext_eq:
  "wrapContext h st p =
     (if contextRegex st \<noteq> None then (Inl ContextOnce, h, st)
      else (case lookup h p of
              None \<Rightarrow> (Inl TypeError, h, st)
            | Some obj \<Rightarrow>
                (Inr (length h), h @ [\<lparr>slots = slots obj, test = ContextWrapper\<rparr>],
                 st\<lparr>contextRegex := Some (length h)\<rparr>)))"
  by (simp add: wrapContext_def regexpClone_def lookup_def split: option.splits)

lemma wrapModule_eq:
  "wrapModule h st p =
     (if moduleRegex st \<noteq> None then (Inl ModuleOnce, h, st)
      else (case lookup h p of
              None \<Rightarrow> (Inl TypeError, h, st)
            | Some obj \<Rightarrow>
                (Inr (length h), h @ [\<lparr>slots = slots obj, test = ModuleWrapper\<rparr>],
                 st\<lparr>moduleRegex := Some (length h)\<rparr>)))"
  by (simp add: wrapModule_def regexpClone_def lookup_def split: option.splits)

lemma sim_exec:
  assumes "sim cp mp (sa, la) (sb, lb)"
  shows "fst (exec (provided cp noteContext) (provided mp noteModule) rt c (h, sa, la)) =
         fst (exec (Some noteContext) (Some noteModule) rt c (h, sb, lb)) \<and>
         fst (snd (exec (provided cp noteContext) (provided mp noteModule) rt c (h, sa, la))) =
         fst (snd (exec (Some noteContext) (Some noteModule) rt c (h, sb, lb))) \<and>
         sim cp mp
          (snd (snd (exec (provided cp noteContext) (provided mp noteModule) rt c (h, sa, la))))
          (snd (snd (exec (Some noteContext) (Some noteModule) rt c (h, sb, lb))))"
proof (cases c)
  case (Context p)
  then show ?thesis using assms
    by (auto simp: exec_def wrapContext_eq sim_def split: option.splits)
next
  case (Module p)
  then show ?thesis using assms
    by (auto simp: exec_def wrapModule_eq sim_def split: option.splits)
next
  case (Test a s)
  show ?thesis
  proof (cases "lookup h a")
    case None
    then show ?thesis using assms Test by (simp add: exec_def)
  next
    case (Some obj)
    show ?thesis
    proof (cases "test obj")
      case NativeTest
      then show ?thesis using assms Test Some
        by (simp add: exec_def call_test_def case_prod_unfold split: sum.splits)
    next
      case ContextWrapper
      from sim_contextRegex_test[OF assms, of rt s h] show ?thesis
        using Test Some ContextWrapper
        by (simp add: exec_def call_test_def case_prod_unfold split: sum.splits)
    next
      case ModuleWrapper
      from sim_moduleRegex_test[OF assms, of rt s h] show ?thesis
        using Test Some ModuleWrapper
        by (simp add: exec_def call_test_def case_prod_unfold split: sum.splits)
    qed
  qed
qed

lemma sim_run:
  assumes "sim cp mp (sa, la) (sb, lb)"
  shows "fst (run (provided cp noteContext) (provided mp noteModule) rt cs (h, sa, la)) =
         fst (run (Some noteContext) (Some noteModule) rt cs (h, sb, lb)) \<and>
         fst (snd (run (provided cp noteContext) (provided mp noteModule) rt cs (h, sa, la))) =
         fst (snd (run (Some noteContext) (Some noteModule) rt cs (h, sb, lb))) \<and>
         sim cp mp
          (snd (snd (run (provided cp noteContext) (provided mp noteModule) rt cs (h, sa, la))))
          (snd (snd (run (Some noteContext) (Some noteModule) rt cs (h, sb, lb))))"
  using assms
proof (induction cs arbitrary: h sa la sb lb)
  case Nil
  then show ?case by simp
next
  case (Cons c cs)
  obtain ra ha sa1 la1 where ea:
    "exec (provided cp noteContext) (provided mp noteModule) rt c (h, sa, la) = (ra, ha, sa1, la1)"
    by (metis prod_cases4)
  obtain rb hb sb1 lb1 where eb:
    "exec (Some noteContext) (Some noteModule) rt c (h, sb, lb) = (rb, hb, sb1, lb1)"
    by (metis prod_cases4)
  from sim_exec[OF Cons.prems, of rt c h] ea eb
  have 1: "ra = rb" "ha = hb" "sim cp mp (sa1, la1) (sb1, lb1)" by simp_all
  from Cons.IH[OF 1(3), of ha] 1 ea eb show ?case
    by (simp add: case_prod_unfold)
qed

text \<open>
  C7. Make one instrumenter with the logging callbacks chosen by \<open>cp\<close> and \<open>mp\<close> (for
  \<open>cp\<close> false and \<open>mp\<close> true: \<^verbatim>\<open>handleModule\<close> only) and one with both, and let the
  caller do the same with each. Then every call returns the same or throws the same in
  both, so leaving a callback out causes no exception; the stores agree; and the log of
  the first is the log of the second without the entries of the callbacks that were left
  out: the given callbacks are called at the same moments with the same arguments, the
  others never. Besides, in the state reached, \<^verbatim>\<open>test\<close> on any regular expression
  object returns a boolean and does not throw.
\<close>

theorem absent_callback_is_skipped:
  assumes "list_all (\<lambda>obj. test obj = NativeTest) h0"
    and "run (provided cp noteContext) (provided mp noteModule) rt cs (h0, instrument, []) =
           (rs, h, st, log)"
    and "run (Some noteContext) (Some noteModule) rt cs (h0, instrument, []) =
           (rs', h', st', log')"
  shows "rs = rs' \<and> h = h' \<and> log = filter (kept cp mp) log' \<and>
         (lookup h a \<noteq> None \<longrightarrow>
            (\<exists>k b. fst (exec (provided cp noteContext) (provided mp noteModule) rt
                           (Test a s) (h, st, log)) = Tested k b))"
proof -
  have "sim cp mp (instrument, []) (instrument, [])" by (simp add: sim_def)
  from sim_run[OF this, of rt cs h0] assms(2,3)
  have 1: "rs = rs' \<and> h = h' \<and> log = filter (kept cp mp) log'"
    by (simp add: sim_def)
  have "wf h st" using wf_run[OF wf_instrument[OF assms(1)] assms(2)] .
  then have "lookup h a \<noteq> None \<longrightarrow>
            (\<exists>k b. fst (exec (provided cp noteContext) (provided mp noteModule) rt
                           (Test a s) (h, st, log)) = Tested k b)"
    using wf_test[of h st a _ "provided cp noteContext" "provided mp noteModule" rt s log]
    by fastforce
  with 1 show ?thesis by simp
qed

text \<open>
  The theorem at work, with \<^verbatim>\<open>handleModule\<close> only: a context match and a module match
  give the one module entry, where both callbacks give a context entry before it.
\<close>

theorem absent_callback_is_skipped_witness:
  "run None (Some noteModule) literals [Context 0, Module 1, Test 2 ''/a'', Test 3 ''m'']
     (patterns [''/a''] [''m''], instrument, []) =
   ([Wrapped 2, Wrapped 3, Tested ContextWrapper True, Tested ModuleWrapper True],
    patterns [''/a''] [''m''] @
      [\<lparr>slots = [''/a''], test = ContextWrapper\<rparr>, \<lparr>slots = [''m''], test = ModuleWrapper\<rparr>],
    \<lparr>contextRegex = Some 2, moduleRegex = Some 3, lastContext = Some ''/a'',
      lastModule = None, reportedContext = False\<rparr>,
    filter (kept False True)
      [ContextNotice ''/a'' (Some 2) (Some 3), ModuleNotice ''m'' ''/a'' (Some 2) (Some 3)])"
proof -
  let ?cs = "[Context 0, Module 1, Test 2 ''/a'', Test 3 ''m'']"
  let ?h = "patterns [''/a''] [''m'']"
  let ?h' = "patterns [''/a''] [''m''] @
      [\<lparr>slots = [''/a''], test = ContextWrapper\<rparr>, \<lparr>slots = [''m''], test = ModuleWrapper\<rparr>]"
  let ?a = "run (provided False noteContext) (provided True noteModule) literals ?cs
              (?h, instrument, [])"
  have n: "list_all (\<lambda>obj. test obj = NativeTest) ?h" by (simp add: patterns_def)
  have a: "?a = (fst ?a, fst (snd ?a), fst (snd (snd ?a)), snd (snd (snd ?a)))"
    by (simp only: prod.collapse)
  have b: "run (Some noteContext) (Some noteModule) literals ?cs (?h, instrument, []) =
           ([Wrapped 2, Wrapped 3, Tested ContextWrapper True, Tested ModuleWrapper True], ?h',
            \<lparr>contextRegex = Some 2, moduleRegex = Some 3, lastContext = Some ''/a'',
              lastModule = None, reportedContext = True\<rparr>,
            [ContextNotice ''/a'' (Some 2) (Some 3),
             ModuleNotice ''m'' ''/a'' (Some 2) (Some 3)])"
    by code_simp
  have 3: "fst (snd (snd ?a)) = \<lparr>contextRegex = Some 2, moduleRegex = Some 3,
             lastContext = Some ''/a'', lastModule = None, reportedContext = False\<rparr>"
    by code_simp
  from absent_callback_is_skipped[OF n a b]
  have 1: "fst ?a = [Wrapped 2, Wrapped 3, Tested ContextWrapper True, Tested ModuleWrapper True]"
    and 2: "fst (snd ?a) = ?h'"
    and 4: "snd (snd (snd ?a)) = filter (kept False True)
      [ContextNotice ''/a'' (Some 2) (Some 3), ModuleNotice ''m'' ''/a'' (Some 2) (Some 3)]"
    by blast+
  have "?a = (fst ?a, fst (snd ?a), fst (snd (snd ?a)), snd (snd (snd ?a)))" by (rule a)
  also have "\<dots> = ([Wrapped 2, Wrapped 3, Tested ContextWrapper True, Tested ModuleWrapper True],
     ?h', \<lparr>contextRegex = Some 2, moduleRegex = Some 3,
             lastContext = Some ''/a'', lastModule = None, reportedContext = False\<rparr>,
     filter (kept False True)
      [ContextNotice ''/a'' (Some 2) (Some 3), ModuleNotice ''m'' ''/a'' (Some 2) (Some 3)])"
    by (simp only: 1 2 3 4)
  finally show ?thesis by (simp only: provided_def if_True if_False)
qed

section \<open>The module callback, the context callback and three scenarios\<close>

text \<open>
  C6. With \<^verbatim>\<open>handleModule\<close> given as \<open>g\<close>, the report step is the step without it (the
  context part, lines 39 to 42) followed, exactly when \<^verbatim>\<open>lastContext\<close> and
  \<^verbatim>\<open>lastModule\<close> are both non-empty strings \<open>c\<close> and \<open>m\<close>, by the call
  \<open>g m c contextRegex moduleRegex\<close> and the assignment of \<^verbatim>\<open>null\<close> to \<^verbatim>\<open>lastModule\<close>.
  A module test on the string \<^verbatim>\<open>lastModule\<close> still holds changes neither the variables
  nor the world. So, with both logging callbacks: against a context matched first, the
  module matches \<open>x.js\<close>, \<open>x.js\<close>, \<open>y.js\<close> are reported all three, the repeated one
  because the report of the first cleared \<^verbatim>\<open>lastModule\<close>; when the two \<open>x.js\<close> come
  before the context has matched, no report clears \<^verbatim>\<open>lastModule\<close> between them and
  \<open>x.js\<close> is reported once.
\<close>

theorem module_callback_clears_lastModule:
  "report hc (Some g) st w =
     (case report hc None st w of
        (st1, w1) \<Rightarrow>
          (case (lastContext st, lastModule st) of
             (Some c, Some m) \<Rightarrow>
               if c \<noteq> [] \<and> m \<noteq> []
               then (st1\<lparr>lastModule := None\<rparr>, g m c (contextRegex st) (moduleRegex st) w1)
               else (st1, w1)
           | _ \<Rightarrow> (st1, w1))) \<and>
   (lastModule st = Some s \<longrightarrow>
      snd (snd (moduleRegex_test hc hm rt s (h, st, w))) = (st, w)) \<and>
   snd (snd (snd (run (Some noteContext) (Some noteModule) literals
     [Context 0, Module 1, Test 2 ''/c'', Test 3 ''x.js'', Test 3 ''x.js'', Test 3 ''y.js'']
     (patterns [''/c''] [''x.js'', ''y.js''], instrument, [])))) =
     [ContextNotice ''/c'' (Some 2) (Some 3),
      ModuleNotice ''x.js'' ''/c'' (Some 2) (Some 3),
      ModuleNotice ''x.js'' ''/c'' (Some 2) (Some 3),
      ModuleNotice ''y.js'' ''/c'' (Some 2) (Some 3)] \<and>
   snd (snd (snd (run (Some noteContext) (Some noteModule) literals
     [Context 0, Module 1, Test 3 ''x.js'', Test 3 ''x.js'', Test 2 ''/c'', Test 3 ''y.js'']
     (patterns [''/c''] [''x.js'', ''y.js''], instrument, [])))) =
     [ContextNotice ''/c'' (Some 2) (Some 3),
      ModuleNotice ''x.js'' ''/c'' (Some 2) (Some 3),
      ModuleNotice ''y.js'' ''/c'' (Some 2) (Some 3)]"
proof (intro conjI impI)
  show "report hc (Some g) st w =
     (case report hc None st w of
        (st1, w1) \<Rightarrow>
          (case (lastContext st, lastModule st) of
             (Some c, Some m) \<Rightarrow>
               if c \<noteq> [] \<and> m \<noteq> []
               then (st1\<lparr>lastModule := None\<rparr>, g m c (contextRegex st) (moduleRegex st) w1)
               else (st1, w1)
           | _ \<Rightarrow> (st1, w1)))"
    by (auto simp: report_def Let_def split: option.splits)
next
  assume "lastModule st = Some s"
  then show "snd (snd (moduleRegex_test hc hm rt s (h, st, w))) = (st, w)"
    by (simp add: moduleRegex_test_def case_prod_unfold split: sum.splits)
next
  show "snd (snd (snd (run (Some noteContext) (Some noteModule) literals
     [Context 0, Module 1, Test 2 ''/c'', Test 3 ''x.js'', Test 3 ''x.js'', Test 3 ''y.js'']
     (patterns [''/c''] [''x.js'', ''y.js''], instrument, [])))) =
     [ContextNotice ''/c'' (Some 2) (Some 3),
      ModuleNotice ''x.js'' ''/c'' (Some 2) (Some 3),
      ModuleNotice ''x.js'' ''/c'' (Some 2) (Some 3),
      ModuleNotice ''y.js'' ''/c'' (Some 2) (Some 3)]"
    by code_simp
next
  show "snd (snd (snd (run (Some noteContext) (Some noteModule) literals
     [Context 0, Module 1, Test 3 ''x.js'', Test 3 ''x.js'', Test 2 ''/c'', Test 3 ''y.js'']
     (patterns [''/c''] [''x.js'', ''y.js''], instrument, [])))) =
     [ContextNotice ''/c'' (Some 2) (Some 3),
      ModuleNotice ''x.js'' ''/c'' (Some 2) (Some 3),
      ModuleNotice ''y.js'' ''/c'' (Some 2) (Some 3)]"
    by code_simp
qed

text \<open>
  The theorem at work: the report of a pending \<open>x.js\<close> under the context \<open>/c\<close> calls the
  module callback with the four arguments and clears \<^verbatim>\<open>lastModule\<close>; and a second
  match of \<open>x.js\<close> while \<^verbatim>\<open>lastModule\<close> is still \<open>x.js\<close> does nothing.
\<close>

theorem module_callback_clears_lastModule_witness:
  "report None (Some noteModule)
     \<lparr>contextRegex = Some 2, moduleRegex = Some 3, lastContext = Some ''/c'',
       lastModule = Some ''x.js'', reportedContext = False\<rparr> [] =
   (\<lparr>contextRegex = Some 2, moduleRegex = Some 3, lastContext = Some ''/c'',
      lastModule = None, reportedContext = False\<rparr>,
    [ModuleNotice ''x.js'' ''/c'' (Some 2) (Some 3)]) \<and>
   snd (snd (moduleRegex_test (Some noteContext) (Some noteModule) literals ''x.js''
     (patterns [''/c''] [''x.js''] @
        [\<lparr>slots = [''/c''], test = ContextWrapper\<rparr>,
         \<lparr>slots = [''x.js''], test = ModuleWrapper\<rparr>],
      \<lparr>contextRegex = Some 2, moduleRegex = Some 3, lastContext = None,
        lastModule = Some ''x.js'', reportedContext = False\<rparr>, []))) =
   (\<lparr>contextRegex = Some 2, moduleRegex = Some 3, lastContext = None,
      lastModule = Some ''x.js'', reportedContext = False\<rparr>, [])"
proof -
  let ?st = "\<lparr>contextRegex = Some 2, moduleRegex = Some 3, lastContext = Some ''/c'',
       lastModule = Some ''x.js'', reportedContext = False\<rparr>"
  let ?st2 = "\<lparr>contextRegex = Some 2, moduleRegex = Some 3, lastContext = None,
        lastModule = Some ''x.js'', reportedContext = False\<rparr>"
  have n: "report None None ?st ([] :: notice list) = (?st, [])"
    by (simp add: report_def)
  note t = module_callback_clears_lastModule[where hc = None and g = noteModule and st = ?st
      and w = "[]"]
  note u = module_callback_clears_lastModule[where st = ?st2 and s = "''x.js''"
      and hc = "Some noteContext" and hm = "Some noteModule" and rt = literals and w = "[]"]
  have 1: "report None (Some noteModule) ?st [] =
           (?st\<lparr>lastModule := None\<rparr>, noteModule ''x.js'' ''/c'' (Some 2) (Some 3) [])"
    using conjunct1[OF t] n by simp
  have 2: "snd (snd (moduleRegex_test (Some noteContext) (Some noteModule) literals ''x.js''
     (patterns [''/c''] [''x.js''] @
        [\<lparr>slots = [''/c''], test = ContextWrapper\<rparr>,
         \<lparr>slots = [''x.js''], test = ModuleWrapper\<rparr>], ?st2, []))) = (?st2, [])"
    using conjunct1[OF conjunct2[OF u]] by simp
  from 1 2 show ?thesis by (simp add: noteModule_def)
qed

text \<open>
  C5. The end-to-end scenario: callbacks that push \<open>(''ctx'', c)\<close> and \<open>(''mod'', m)\<close>, a
  context pattern that matches \<open>/icons\<close> and a module pattern that matches \<open>a.svg\<close> and
  \<open>b.svg\<close>. The four tests all return true and the log is the three entries; the second
  match of \<open>/icons\<close> adds none.
\<close>

theorem end_to_end_scenario:
  "run (Some logContext) (Some logModule) literals
     [Context 0, Module 1,
      Test 2 ''/icons'', Test 3 ''a.svg'', Test 3 ''b.svg'', Test 2 ''/icons'']
     (patterns [''/icons''] [''a.svg'', ''b.svg''], instrument, []) =
   ([Wrapped 2, Wrapped 3, Tested ContextWrapper True, Tested ModuleWrapper True,
     Tested ModuleWrapper True, Tested ContextWrapper True],
    patterns [''/icons''] [''a.svg'', ''b.svg''] @
      [\<lparr>slots = [''/icons''], test = ContextWrapper\<rparr>,
       \<lparr>slots = [''a.svg'', ''b.svg''], test = ModuleWrapper\<rparr>],
    \<lparr>contextRegex = Some 2, moduleRegex = Some 3, lastContext = Some ''/icons'',
      lastModule = None, reportedContext = True\<rparr>,
    [(''ctx'', ''/icons''), (''mod'', ''a.svg''), (''mod'', ''b.svg'')])"
  by code_simp

subsection \<open>The context callback over a whole run\<close>

lemma once_report:
  assumes "once (st, log)"
  shows "once (report (Some noteContext) (provided mp noteModule) st log)"
  using assms
  by (cases mp)
     (auto simp: once_def report_def provided_def kept_def noteContext_def noteModule_def Let_def
           split: option.splits)

lemma once_update:
  "once (st, log) \<Longrightarrow> once (st\<lparr>lastContext := x\<rparr>, log)"
  "once (st, log) \<Longrightarrow> once (st\<lparr>lastModule := x\<rparr>, log)"
  "once (st, log) \<Longrightarrow> once (st\<lparr>contextRegex := y\<rparr>, log)"
  "once (st, log) \<Longrightarrow> once (st\<lparr>moduleRegex := y\<rparr>, log)"
  by (auto simp: once_def)

lemma once_exec:
  assumes "once (st, log)"
  shows "once (snd (snd (exec (Some noteContext) (provided mp noteModule) rt c (h, st, log))))"
proof (cases c)
  case (Context p)
  then show ?thesis using assms
    by (auto simp: exec_def wrapContext_eq once_update split: option.splits)
next
  case (Module p)
  then show ?thesis using assms
    by (auto simp: exec_def wrapModule_eq once_update split: option.splits)
next
  case (Test a s)
  show ?thesis
  proof (cases "lookup h a")
    case None
    then show ?thesis using assms Test by (simp add: exec_def)
  next
    case (Some obj)
    have 1: "once (report (Some noteContext) (provided mp noteModule) (st\<lparr>lastContext := Some s\<rparr>) log)"
      and 2: "once (report (Some noteContext) (provided mp noteModule) (st\<lparr>lastModule := Some s\<rparr>) log)"
      using assms by (auto intro: once_report once_update)
    show ?thesis
      using assms Test Some 1 2
      by (cases "test obj")
         (auto simp: exec_def call_test_def contextRegex_test_def moduleRegex_test_def
                     case_prod_unfold split: sum.splits)
  qed
qed

lemma once_run:
  assumes "once (st, log)"
  shows "once (snd (snd (run (Some noteContext) (provided mp noteModule) rt cs (h, st, log))))"
  using assms
proof (induction cs arbitrary: h st log)
  case Nil
  then show ?case by simp
next
  case (Cons c cs)
  obtain r h1 st1 log1 where e:
    "exec (Some noteContext) (provided mp noteModule) rt c (h, st, log) = (r, h1, st1, log1)"
    by (metis prod_cases4)
  from once_exec[OF Cons.prems, of mp rt c h] e have "once (st1, log1)" by simp
  from Cons.IH[OF this, of h1] e show ?case by (simp add: case_prod_unfold)
qed

text \<open>
  C1. The claim expects the context callback once for each value \<^verbatim>\<open>lastContext\<close>
  takes, hence twice when the context pattern matches \<open>/a\<close>, \<open>/a\<close>, \<open>/b\<close>, each
  followed by a module match. The code does otherwise. In every run of a new instrumenter
  the context callback is called at most once, whatever the patterns and the calls:
  \<^verbatim>\<open>reportedContext\<close> is set at line 41 and no line resets it. In the scenario it is
  called for \<open>/a\<close> only, and the module \<open>m3\<close> is reported under \<open>/b\<close> without a context
  entry for \<open>/b\<close>.
\<close>

theorem context_callback_fires_once_for_two_contexts:
  "length (filter (kept True False)
     (snd (snd (snd (run (Some noteContext) (provided mp noteModule) rt cs
        (h, instrument, [])))))) \<le> 1 \<and>
   snd (snd (run (Some noteContext) (Some noteModule) literals
     [Context 0, Module 1,
      Test 2 ''/a'', Test 3 ''m1'', Test 2 ''/a'', Test 3 ''m2'', Test 2 ''/b'', Test 3 ''m3'']
     (patterns [''/a'', ''/b''] [''m1'', ''m2'', ''m3''], instrument, []))) =
   (\<lparr>contextRegex = Some 2, moduleRegex = Some 3, lastContext = Some ''/b'',
      lastModule = None, reportedContext = True\<rparr>,
    [ContextNotice ''/a'' (Some 2) (Some 3),
     ModuleNotice ''m1'' ''/a'' (Some 2) (Some 3),
     ModuleNotice ''m2'' ''/a'' (Some 2) (Some 3),
     ModuleNotice ''m3'' ''/b'' (Some 2) (Some 3)])"
proof
  have "once (instrument, [])" by (simp add: once_def instrument_def)
  from once_run[OF this, of mp rt cs h]
  show "length (filter (kept True False)
     (snd (snd (snd (run (Some noteContext) (provided mp noteModule) rt cs
        (h, instrument, [])))))) \<le> 1"
    by (auto simp: once_def case_prod_unfold split: if_splits)
next
  show "snd (snd (run (Some noteContext) (Some noteModule) literals
     [Context 0, Module 1,
      Test 2 ''/a'', Test 3 ''m1'', Test 2 ''/a'', Test 3 ''m2'', Test 2 ''/b'', Test 3 ''m3'']
     (patterns [''/a'', ''/b''] [''m1'', ''m2'', ''m3''], instrument, []))) =
   (\<lparr>contextRegex = Some 2, moduleRegex = Some 3, lastContext = Some ''/b'',
      lastModule = None, reportedContext = True\<rparr>,
    [ContextNotice ''/a'' (Some 2) (Some 3),
     ModuleNotice ''m1'' ''/a'' (Some 2) (Some 3),
     ModuleNotice ''m2'' ''/a'' (Some 2) (Some 3),
     ModuleNotice ''m3'' ''/b'' (Some 2) (Some 3)])"
    by code_simp
qed

end
